theory Spec2Isabelle
  imports Complex_Main "HOL-Library.Word"
begin

section \<open>The dice game: data model\<close>

text \<open>
  The program is a Node.js script (\<^verbatim>\<open>src/game.js\<close>, with an earlier draft
  \<^verbatim>\<open>src/t.js\<close> and a variant \<^verbatim>\<open>src/unnamed/part_000\<close>). JavaScript numbers are
  IEEE doubles. The faces of a die and the values the random generator draws are integers
  below \<open>2^53\<close>, which doubles hold exactly: they are modelled as \<open>int\<close>. The
  probabilities are quotients \<open>count / 36\<close> rounded to four decimals, modelled as the
  rationals they denote. The number computed from what the user types can be any
  integer-valued double, an infinity or \<open>NaN\<close>: it is a \<open>jsnum\<close>, and the arithmetic on
  it rounds as doubles do. A value that can be \<open>undefined\<close> is an \<open>option\<close>. A string is
  the list of its bytes in UTF-8, the encoding in which the program reads its input.
\<close>

datatype error =
    Error string          \<comment> \<open>\<^verbatim>\<open>throw new Error(message)\<close> of the program itself\<close>
  | TypeError             \<comment> \<open>reading a property of \<open>undefined\<close>\<close>
  | ERR_INVALID_ARG_TYPE  \<comment> \<open>the \<open>TypeError\<close> of Node's argument validation\<close>
  | ERR_OUT_OF_RANGE      \<comment> \<open>the \<open>RangeError\<close> of Node's argument validation\<close>

text \<open>\<open>Num n\<close> is the double whose value is the integer \<open>n\<close> (\<open>Num 0\<close> is \<open>+0\<close>);
  \<open>NegZero\<close> is \<open>-0\<close>.\<close>

datatype jsnum = Num int | NegZero | PosInf | NegInf | NaN

record dice =
  faces :: "int list"

text \<open>
  \<^verbatim>\<open>class Dice { constructor(faces) { if (faces.length !== 6 || !faces.every(Number.isInteger)) throw ... } }\<close>.
  The faces are typed \<open>int\<close> here, so only the length test can fail.
\<close>

definition Dice :: "int list \<Rightarrow> error + dice" where
  "Dice fs =
     (if length fs \<noteq> 6 then Inl (Error ''Each dice must have exactly 6 integers.'')
      else Inr \<lparr>faces = fs\<rparr>)"

text \<open>\<^verbatim>\<open>roll(index) { return this.faces[index]; }\<close>: the index is turned into a property
  name, so \<open>-0\<close> reads the face 0, and an index that is \<open>NaN\<close>, infinite, negative or past
  the end reads \<open>undefined\<close> (\<open>None\<close>).\<close>

fun roll :: "dice \<Rightarrow> jsnum \<Rightarrow> int option" where
  "roll d (Num i) = (if 0 \<le> i \<and> i < int (length (faces d)) then Some (faces d ! nat i) else None)"
| "roll d NegZero = (if faces d = [] then None else Some (faces d ! 0))"
| "roll d PosInf = None"
| "roll d NegInf = None"
| "roll d NaN = None"

section \<open>Decimal strings\<close>

definition digit_char :: "nat \<Rightarrow> char" where
  "digit_char d = ''0123456789'' ! d"

fun dec_digits :: "nat \<Rightarrow> string" where
  "dec_digits n = (if n < 10 then [digit_char n] else dec_digits (n div 10) @ [digit_char (n mod 10)])"

declare dec_digits.simps [simp del]

text \<open>\<^verbatim>\<open>Number.prototype.toString()\<close> on a safe integer (of magnitude below \<open>2^53\<close>):
  the decimal digits, with a minus sign when negative. Beyond the safe integers a
  double's string is no longer the digits of an integer (the digits are shortened, and
  from \<open>10^21\<close> on the notation has an exponent): there this is not the program's string,
  and the statements below apply it to safe integers only.\<close>

definition toString :: "int \<Rightarrow> string" where
  "toString i = (if i < 0 then CHR ''-'' # dec_digits (nat (- i)) else dec_digits (nat i))"

text \<open>
  \<^verbatim>\<open>x.toFixed(4)\<close> (ECMAScript, Number.prototype.toFixed): for \<open>x < 0\<close> the sign is split
  off; \<open>n\<close> is the integer for which \<open>n / 10^4 - x\<close> is closest to zero, the larger one
  when there are two; the digits of \<open>n\<close>, padded with zeros to five, get the point before
  the last four. \<open>toFixed_units\<close> is that \<open>n\<close> (signed), \<open>toFixed\<close> the string.
\<close>

definition toFixed_units :: "rat \<Rightarrow> int" where
  "toFixed_units x = (if x < 0 then - \<lfloor>(- x) * 10000 + 1 / 2\<rfloor> else \<lfloor>x * 10000 + 1 / 2\<rfloor>)"

definition toFixed :: "rat \<Rightarrow> string" where
  "toFixed x =
     (let n = nat \<bar>toFixed_units x\<bar>;
          m = dec_digits n;
          m' = replicate (5 - length m) CHR ''0'' @ m;
          k = length m' - 4
      in (if x < 0 then ''-'' else '''') @ take k m' @ ''.'' @ drop k m')"

section \<open>The probability engine\<close>

text \<open>
  \<^verbatim>\<open>
  static calculateProbability(diceA, diceB) {
    let count = 0;
    for (let a of diceA) { for (let b of diceB) { if (a > b) { count++; } } }
    const totalOutcomes = 36;
    const probability = count / totalOutcomes;
    return Number(probability.toFixed(4));
  }
  \<close>
  The two loops are folds over the face lists with the counter as accumulator.
  \<^verbatim>\<open>Number(s)\<close> reads the four-decimal string back, so the result is \<open>n / 10^4\<close> for the
  \<open>n\<close> that \<open>toFixed\<close> chose. (The double \<open>count / 36\<close> differs from the rational by
  less than \<open>10^-16\<close>, and \<open>10^4 * count / 36\<close> is never closer than \<open>1/18\<close> to a half
  integer, so the double and the rational choose the same \<open>n\<close>.)
\<close>

definition count_greater :: "int list \<Rightarrow> int list \<Rightarrow> nat" where
  "count_greater diceA diceB =
     fold (\<lambda>a count. fold (\<lambda>b count. if a > b then count + 1 else count) diceB count) diceA 0"

definition calculateProbability :: "int list \<Rightarrow> int list \<Rightarrow> rat" where
  "calculateProbability diceA diceB =
     (let count = count_greater diceA diceB;
          totalOutcomes = 36;
          probability = of_nat count / totalOutcomes
      in of_int (toFixed_units probability) / 10000)"

text \<open>A cell of the matrix is the string label or a number (\<^verbatim>\<open>src/game.js\<close>); in
  \<^verbatim>\<open>src/t.js\<close> every cell is a string.\<close>

datatype cell = StrCell string | NumCell rat

text \<open>
  \<^verbatim>\<open>
  static calculate(diceSet) {
    const probabilities = [];
    for (let i = 0; i < diceSet.length; i++) {
      probabilities[i] = [];
      for (let j = 0; j < diceSet.length; j++) {
        if (i === j) { probabilities[i][j] = "- (0.3333)"; }
        else { probabilities[i][j] = this.calculateProbability(diceSet[i].faces, diceSet[j].faces); }
      }
    }
    return probabilities;
  }
  \<close>
  Row \<open>i\<close> is built by the inner loop over \<open>j = 0, ..., length - 1\<close>, the matrix by the
  outer loop over \<open>i\<close>.
\<close>

definition calculate_row :: "dice list \<Rightarrow> nat \<Rightarrow> cell list" where
  "calculate_row diceSet i =
     map (\<lambda>j. if i = j then StrCell ''- (0.3333)''
              else NumCell (calculateProbability (faces (diceSet ! i)) (faces (diceSet ! j))))
       [0..<length diceSet]"

definition calculate :: "dice list \<Rightarrow> cell list list" where
  "calculate diceSet = map (calculate_row diceSet) [0..<length diceSet]"

text \<open>
  The copy in \<^verbatim>\<open>src/unnamed/part_000\<close> first runs
  \<^verbatim>\<open>console.log(diceSet[0].faces, "diceSet")\<close>, which throws a \<open>TypeError\<close> on an empty
  dice set, and then the same loops.
\<close>

definition calculate_part_000 :: "dice list \<Rightarrow> error + cell list list" where
  "calculate_part_000 diceSet =
     (case diceSet of [] \<Rightarrow> Inl TypeError | d # ds \<Rightarrow> Inr (calculate diceSet))"

text \<open>
  The draft \<^verbatim>\<open>src/t.js\<close> fills the cells off the diagonal with a placeholder:
  \<^verbatim>\<open>probabilities[i][j] = Math.random().toFixed(4); // Placeholder\<close>.
  \<open>Math.random\<close> is the external state: \<open>rnd k\<close> is the number its \<open>k\<close>-th call
  returns, and the loops thread the number of calls made so far.
\<close>

fun calculate_row_t :: "(nat \<Rightarrow> rat) \<Rightarrow> nat \<Rightarrow> nat list \<Rightarrow> nat \<Rightarrow> cell list \<times> nat" where
  "calculate_row_t rnd i [] k = ([], k)"
| "calculate_row_t rnd i (j # js) k =
     (if i = j then
        (case calculate_row_t rnd i js k of (row, k') \<Rightarrow> (StrCell ''- (0.3333)'' # row, k'))
      else
        (case calculate_row_t rnd i js (Suc k) of (row, k') \<Rightarrow> (StrCell (toFixed (rnd k)) # row, k')))"

fun calculate_rows_t :: "(nat \<Rightarrow> rat) \<Rightarrow> nat \<Rightarrow> nat list \<Rightarrow> nat \<Rightarrow> cell list list \<times> nat" where
  "calculate_rows_t rnd n [] k = ([], k)"
| "calculate_rows_t rnd n (i # is) k =
     (case calculate_row_t rnd i [0..<n] k of
        (row, k') \<Rightarrow> (case calculate_rows_t rnd n is k' of (rows, k'') \<Rightarrow> (row # rows, k'')))"

definition calculate_t :: "(nat \<Rightarrow> rat) \<Rightarrow> nat \<Rightarrow> dice list \<Rightarrow> cell list list \<times> nat" where
  "calculate_t rnd k diceSet = calculate_rows_t rnd (length diceSet) [0..<length diceSet] k"

text \<open>The pairs of face positions the specification speaks of: those where the first
  die shows the strictly greater face, and those where the two faces are equal.\<close>

definition greater_pairs :: "int list \<Rightarrow> int list \<Rightarrow> (nat \<times> nat) set" where
  "greater_pairs A B = {(i, j). i < length A \<and> j < length B \<and> B ! j < A ! i}"

definition equal_pairs :: "int list \<Rightarrow> int list \<Rightarrow> (nat \<times> nat) set" where
  "equal_pairs A B = {(i, j). i < length A \<and> j < length B \<and> A ! i = B ! j}"

section \<open>Node's crypto module, as the program uses it\<close>

text \<open>
  The program calls three functions of Node's \<^verbatim>\<open>crypto\<close> module, which is not part of
  the repository. They are modelled by their documented contracts:
  \<^item> \<^verbatim>\<open>crypto.randomBytes(n)\<close> returns the next \<open>n\<close> bytes of the secure random source;
  \<^item> \<^verbatim>\<open>crypto.randomInt(min, max)\<close> requires safe integers with \<open>min < max\<close> and
    \<open>max - min < 2^48\<close>, throws \<open>ERR_INVALID_ARG_TYPE\<close> or \<open>ERR_OUT_OF_RANGE\<close>
    otherwise, and returns an integer of \<open>[min, max)\<close> drawn from the source;
  \<^item> \<^verbatim>\<open>crypto.createHmac("sha3-256", key).update(msg).digest("hex")\<close> is a function of
    the key and the message: the MAC's bytes, written in lowercase hexadecimal.
  The random source is explicit state: the bytes and samples it will yield, and how many
  of each have been drawn. The MAC is a parameter \<open>H\<close> of every function that uses it.
\<close>

type_synonym byte = "8 word"

type_synonym mac = "string \<Rightarrow> string \<Rightarrow> byte list"

record entropy =
  random_bytes :: "nat \<Rightarrow> byte"
  bytes_drawn :: nat
  random_samples :: "nat \<Rightarrow> nat"
  samples_drawn :: nat

definition hex_digit :: "nat \<Rightarrow> char" where
  "hex_digit d = ''0123456789abcdef'' ! d"

definition hex_byte :: "byte \<Rightarrow> string" where
  "hex_byte b = [hex_digit (unat b div 16), hex_digit (unat b mod 16)]"

text \<open>\<^verbatim>\<open>buffer.toString("hex")\<close> and \<^verbatim>\<open>.digest("hex")\<close>.\<close>

definition toString_hex :: "byte list \<Rightarrow> string" where
  "toString_hex bs = concat (map hex_byte bs)"

definition randomBytes :: "nat \<Rightarrow> entropy \<Rightarrow> byte list \<times> entropy" where
  "randomBytes n e =
     (map (random_bytes e) [bytes_drawn e..<bytes_drawn e + n],
      e\<lparr>bytes_drawn := bytes_drawn e + n\<rparr>)"

definition RAND_MAX :: int where
  "RAND_MAX = 2 ^ 48 - 1"

definition isSafeInteger :: "int \<Rightarrow> bool" where
  "isSafeInteger i = (\<bar>i\<bar> \<le> 2 ^ 53 - 1)"

definition randomInt :: "int \<Rightarrow> int \<Rightarrow> entropy \<Rightarrow> (error + int) \<times> entropy" where
  "randomInt mn mx e =
     (if \<not> isSafeInteger mn then (Inl ERR_INVALID_ARG_TYPE, e)
      else if \<not> isSafeInteger mx then (Inl ERR_INVALID_ARG_TYPE, e)
      else if mx \<le> mn then (Inl ERR_OUT_OF_RANGE, e)
      else if \<not> (mx - mn \<le> RAND_MAX) then (Inl ERR_OUT_OF_RANGE, e)
      else (Inr (mn + int (random_samples e (samples_drawn e)) mod (mx - mn)),
            e\<lparr>samples_drawn := Suc (samples_drawn e)\<rparr>))"

definition createHmac :: "mac \<Rightarrow> string \<Rightarrow> string \<Rightarrow> string" where
  "createHmac H k msg = toString_hex (H k msg)"

section \<open>The fair random generator\<close>

text \<open>
  \<^verbatim>\<open>
  static generateRandom(range) {
    const key = crypto.randomBytes(32).toString("hex");
    const randomValue = crypto.randomInt(0, range);
    const hmac = crypto.createHmac("sha3-256", key).update(randomValue.toString()).digest("hex");
    return { randomValue, hmac, key };
  }
  static verifyHMAC(value, key, hmac) {
    const calculatedHMAC = crypto.createHmac("sha3-256", key).update(value.toString()).digest("hex");
    return hmac === calculatedHMAC;
  }
  \<close>
  \<open>generateRandom\<close> has no check of its own: it fails where \<open>crypto.randomInt\<close> throws,
  after the key's bytes have been drawn. \<open>verifyHMAC\<close> has no failing branch.
\<close>

record commitment =
  randomValue :: int
  hmac :: string
  key :: string

definition generateRandom :: "mac \<Rightarrow> int \<Rightarrow> entropy \<Rightarrow> (error + commitment) \<times> entropy" where
  "generateRandom H range' e =
     (case randomBytes 32 e of
        (buf, e1) \<Rightarrow>
          (let k = toString_hex buf in
           case randomInt 0 range' e1 of
             (Inl err, e2) \<Rightarrow> (Inl err, e2)
           | (Inr rv, e2) \<Rightarrow>
               (Inr \<lparr>randomValue = rv, hmac = createHmac H k (toString rv), key = k\<rparr>, e2)))"

definition verifyHMAC :: "mac \<Rightarrow> int \<Rightarrow> string \<Rightarrow> string \<Rightarrow> bool" where
  "verifyHMAC H v k h = (let calculatedHMAC = createHmac H k (toString v) in h = calculatedHMAC)"

text \<open>What the specification calls a well-formed key or digest: 64 lowercase
  hexadecimal characters (32 bytes).\<close>

definition is_hex_char :: "char \<Rightarrow> bool" where
  "is_hex_char c = (c \<in> set ''0123456789abcdef'')"

definition is_hex64 :: "string \<Rightarrow> bool" where
  "is_hex64 s = (length s = 64 \<and> list_all is_hex_char s)"

section \<open>The fair throw\<close>

text \<open>
  The double nearest to an integer, ties going to the even significand; from
  \<open>2^1024 - 2^970\<close> on it is an infinity. A double has 53 significant bits, so an integer
  of magnitude \<open>a\<close> is rounded to a multiple of \<open>2^e\<close>, where \<open>e\<close> is the number of
  bits \<open>a\<close> has beyond 53.
\<close>

function ulp_exponent :: "nat \<Rightarrow> nat" where
  "ulp_exponent a = (if a < 2 ^ 53 then 0 else Suc (ulp_exponent (a div 2)))"
  by pat_completeness auto
termination
  by (relation "measure (\<lambda>a. a)") auto

declare ulp_exponent.simps [simp del]

definition to_double :: "int \<Rightarrow> jsnum" where
  "to_double x =
     (let a = nat \<bar>x\<bar>;
          e = ulp_exponent a;
          q = a div 2 ^ e;
          rest = a mod 2 ^ e;
          m = (if 2 ^ e < 2 * rest \<or> (2 * rest = 2 ^ e \<and> odd q) then q + 1 else q) * 2 ^ e
      in if 2 ^ 1024 \<le> m then (if x < 0 then NegInf else PosInf) else Num (sgn x * int m))"

text \<open>
  JavaScript's \<open>+\<close> and \<open>%\<close> (ECMAScript, Number::add and Number::remainder). The sum
  of two finite numbers is their exact sum, rounded; a zero sum of non-zero numbers is
  \<open>+0\<close>. The remainder takes the sign of the dividend, also when it is zero; it is the
  dividend for an infinite divisor, and \<open>NaN\<close> for a zero divisor or an infinite
  dividend. The remainder of two integers is exact.
\<close>

fun js_add :: "jsnum \<Rightarrow> jsnum \<Rightarrow> jsnum" where
  "js_add NaN y = NaN"
| "js_add x NaN = NaN"
| "js_add PosInf NegInf = NaN"
| "js_add NegInf PosInf = NaN"
| "js_add PosInf y = PosInf"
| "js_add NegInf y = NegInf"
| "js_add x PosInf = PosInf"
| "js_add x NegInf = NegInf"
| "js_add NegZero NegZero = NegZero"
| "js_add NegZero (Num b) = Num b"
| "js_add (Num a) NegZero = Num a"
| "js_add (Num a) (Num b) = to_double (a + b)"

fun js_rem :: "jsnum \<Rightarrow> jsnum \<Rightarrow> jsnum" where
  "js_rem NaN d = NaN"
| "js_rem n NaN = NaN"
| "js_rem PosInf d = NaN"
| "js_rem NegInf d = NaN"
| "js_rem n PosInf = n"
| "js_rem n NegInf = n"
| "js_rem n NegZero = NaN"
| "js_rem NegZero (Num b) = (if b = 0 then NaN else NegZero)"
| "js_rem (Num a) (Num b) =
     (if b = 0 then NaN
      else if \<bar>a\<bar> mod \<bar>b\<bar> = 0 then (if a < 0 then NegZero else Num 0)
      else Num (sgn a * (\<bar>a\<bar> mod \<bar>b\<bar>)))"

text \<open>
  \<^verbatim>\<open>parseInt(string, 10)\<close> (ECMAScript): leading white space is dropped, one sign is
  read, then the longest run of decimal digits; no digit gives \<open>NaN\<close>, and whatever
  follows the digits is ignored. The result is the double nearest to the integer the
  digits denote, \<open>-0\<close> for a zero with a minus sign. (The standard lets an
  implementation approximate beyond 20 significant digits; Node rounds the exact value.)
  White space is what the standard calls \<open>WhiteSpace\<close> and \<open>LineTerminator\<close>: U+0009 to
  U+000D, U+0020, U+00A0, U+1680, U+2000 to U+200A, U+2028, U+2029, U+202F, U+205F, U+3000
  and U+FEFF, each listed here by its bytes.
\<close>

definition white_space :: "string list" where
  "white_space =
     [[CHR 0x09], [CHR 0x0A], [CHR 0x0B], [CHR 0x0C], [CHR 0x0D], [CHR 0x20],
      [CHR 0xC2, CHR 0xA0],
      [CHR 0xE1, CHR 0x9A, CHR 0x80],
      [CHR 0xE2, CHR 0x80, CHR 0x80], [CHR 0xE2, CHR 0x80, CHR 0x81], [CHR 0xE2, CHR 0x80, CHR 0x82],
      [CHR 0xE2, CHR 0x80, CHR 0x83], [CHR 0xE2, CHR 0x80, CHR 0x84], [CHR 0xE2, CHR 0x80, CHR 0x85],
      [CHR 0xE2, CHR 0x80, CHR 0x86], [CHR 0xE2, CHR 0x80, CHR 0x87], [CHR 0xE2, CHR 0x80, CHR 0x88],
      [CHR 0xE2, CHR 0x80, CHR 0x89], [CHR 0xE2, CHR 0x80, CHR 0x8A],
      [CHR 0xE2, CHR 0x80, CHR 0xA8], [CHR 0xE2, CHR 0x80, CHR 0xA9], [CHR 0xE2, CHR 0x80, CHR 0xAF],
      [CHR 0xE2, CHR 0x81, CHR 0x9F],
      [CHR 0xE3, CHR 0x80, CHR 0x80],
      [CHR 0xEF, CHR 0xBB, CHR 0xBF]]"

function dropWhiteSpace :: "string \<Rightarrow> string" where
  "dropWhiteSpace s =
     (case List.find (\<lambda>w. take (length w) s = w) white_space of
        None \<Rightarrow> s
      | Some w \<Rightarrow> dropWhiteSpace (drop (length w) s))"
  by pat_completeness auto
termination
proof (relation "measure length")
  show "wf (measure length)" by simp
next
  fix s :: string and w
  assume "List.find (\<lambda>w. take (length w) s = w) white_space = Some w"
  then have "w \<in> set white_space" and t: "take (length w) s = w"
    by (auto simp: find_Some_iff)
  then have "w \<noteq> []" by (auto simp: white_space_def)
  with t have "s \<noteq> []" by auto
  with \<open>w \<noteq> []\<close> show "(drop (length w) s, s) \<in> measure length" by simp
qed

declare dropWhiteSpace.simps [simp del]

definition digit_value :: "char \<Rightarrow> nat option" where
  "digit_value c =
     map_of [(CHR ''0'', 0), (CHR ''1'', 1), (CHR ''2'', 2), (CHR ''3'', 3), (CHR ''4'', 4),
             (CHR ''5'', 5), (CHR ''6'', 6), (CHR ''7'', 7), (CHR ''8'', 8), (CHR ''9'', 9)] c"

definition is_digit :: "char \<Rightarrow> bool" where
  "is_digit c = (digit_value c \<noteq> None)"

definition digits_value :: "string \<Rightarrow> nat" where
  "digits_value z = foldl (\<lambda>acc c. acc * 10 + (case digit_value c of Some d \<Rightarrow> d | None \<Rightarrow> 0)) 0 z"

definition parseInt :: "string \<Rightarrow> jsnum" where
  "parseInt inputString =
     (let S = dropWhiteSpace inputString;
          sign = (if S \<noteq> [] \<and> hd S = CHR ''-'' then - 1 else 1);
          S' = (if S \<noteq> [] \<and> (hd S = CHR ''+'' \<or> hd S = CHR ''-'') then tl S else S);
          Z = takeWhile is_digit S';
          mathInt = digits_value Z
      in if Z = [] then NaN
         else if mathInt = 0 then (if sign = - 1 then NegZero else Num 0)
         else to_double (sign * int mathInt))"

text \<open>
  \<^verbatim>\<open>
  async fairThrow(range, player) {
    const { randomValue, hmac, key } = FairRandomGenerator.generateRandom(range);
    console.log(`I selected a random value in the range 0..${range - 1} (KEY=${hmac}). ...`);
    let userNumber = await this.prompt(`Add your number modulo ${range}: `);
    if (userNumber === "x" || userNumber === "X") { process.exit(1); }
    if (userNumber === "?") { ProbabilityCalculator.showResults(); return this.fairThrow(range, player); }
    const result = (randomValue + parseInt(userNumber, 10)) % range;
    console.log(...); console.log(...);
    return result;
  }
  \<close>
  The lines the user will type are an explicit input list; a prompt with no line left
  never resolves (\<open>Pending\<close>). The console output is not modelled (\<open>player\<close> only
  selects a word of it), and \<open>showResults\<close> only prints: it parses the same command
  line the program parsed when it started. Each \<open>?\<close> starts the routine again, with a
  new commitment, on the remaining input. (This is \<^verbatim>\<open>src/game.js\<close> and
  \<^verbatim>\<open>src/unnamed/part_000\<close>; the draft \<^verbatim>\<open>src/t.js\<close> has the same routine without the
  two tests of the answer.)
\<close>

datatype 'a outcome = Returned 'a | Exited int | Thrown error | Pending

fun fairThrow :: "mac \<Rightarrow> int \<Rightarrow> string \<Rightarrow> string list \<Rightarrow> entropy \<Rightarrow> jsnum outcome \<times> string list \<times> entropy" where
  "fairThrow H range' player [] e =
     (case generateRandom H range' e of
        (Inl err, e') \<Rightarrow> (Thrown err, [], e')
      | (Inr c, e') \<Rightarrow> (Pending, [], e'))"
| "fairThrow H range' player (userNumber # rest) e =
     (case generateRandom H range' e of
        (Inl err, e') \<Rightarrow> (Thrown err, userNumber # rest, e')
      | (Inr c, e') \<Rightarrow>
          (if userNumber = ''x'' \<or> userNumber = ''X'' then (Exited 1, rest, e')
           else if userNumber = ''?'' then fairThrow H range' player rest e'
           else (Returned (js_rem (js_add (Num (randomValue c)) (parseInt userNumber)) (Num range')),
                 rest, e')))"

section \<open>A concrete environment\<close>

text \<open>The theorems below hold for every MAC and every random source. Where a statement
  is evaluated at explicit inputs, it is at this dice set, this random source and this
  keyed function (which, like HMAC-SHA3-256, returns 32 bytes).\<close>

definition example_dice :: "dice list" where
  "example_dice = [\<lparr>faces = [2, 2, 4, 4, 9, 9]\<rparr>, \<lparr>faces = [6, 8, 1, 1, 8, 6]\<rparr>, \<lparr>faces = [7, 5, 3, 7, 5, 3]\<rparr>]"

definition example_entropy :: entropy where
  "example_entropy =
     \<lparr>random_bytes = (\<lambda>i. of_nat (7 * i + 1)), bytes_drawn = 0,
      random_samples = (\<lambda>k. 3 + 5 * k), samples_drawn = 0\<rparr>"

definition example_mac :: mac where
  "example_mac k msg = take 32 (map (\<lambda>c. of_nat (of_char c)) (k @ msg) @ replicate 32 0)"

section \<open>Properties of the probability engine\<close>

lemma fold_inner_count:
  "fold (\<lambda>b count. if a > b then count + 1 else count) B c = c + length (filter (\<lambda>b. b < a) B)"
  by (induction B arbitrary: c) auto

lemma fold_outer_count:
  "fold (\<lambda>a count. fold (\<lambda>b count. if a > b then count + 1 else count) B count) A c
     = c + (\<Sum>a\<leftarrow>A. length (filter (\<lambda>b. b < a) B))"
  by (induction A arbitrary: c) (auto simp: fold_inner_count)

lemma count_greater_sum_list:
  "count_greater A B = (\<Sum>a\<leftarrow>A. length (filter (\<lambda>b. b < a) B))"
  by (simp add: count_greater_def fold_outer_count)

lemma greater_pairs_Sigma:
  "greater_pairs A B = (SIGMA i:{..<length A}. {j. j < length B \<and> B ! j < A ! i})"
  by (auto simp: greater_pairs_def)

lemma count_greater_card: "count_greater A B = card (greater_pairs A B)"
proof -
  have "card (greater_pairs A B) = (\<Sum>i<length A. card {j. j < length B \<and> B ! j < A ! i})"
    unfolding greater_pairs_Sigma
    using card_SigmaI [of "{..<length A}" "\<lambda>i. {j. j < length B \<and> B ! j < A ! i}"] by simp
  also have "\<dots> = (\<Sum>i<length A. length (filter (\<lambda>b. b < A ! i) B))"
    by (simp add: length_filter_conv_card)
  also have "\<dots> = (\<Sum>a\<leftarrow>A. length (filter (\<lambda>b. b < a) B))"
    by (simp add: sum_list_sum_nth atLeast0LessThan)
  finally show ?thesis by (simp add: count_greater_sum_list)
qed

lemma finite_pairs: "finite (greater_pairs A B)" "finite (equal_pairs A B)"
proof -
  have f: "finite ({..<length A} \<times> {..<length B})" by simp
  have "greater_pairs A B \<subseteq> {..<length A} \<times> {..<length B}"
    by (auto simp: greater_pairs_def)
  then show "finite (greater_pairs A B)" using f by (rule finite_subset)
  have "equal_pairs A B \<subseteq> {..<length A} \<times> {..<length B}"
    by (auto simp: equal_pairs_def)
  then show "finite (equal_pairs A B)" using f by (rule finite_subset)
qed

lemma pairs_partition:
  "card (greater_pairs A B) + card (greater_pairs B A) + card (equal_pairs A B) = length A * length B"
proof -
  let ?U = "{..<length A} \<times> {..<length B}"
  let ?L = "prod.swap ` greater_pairs B A"
  have cL: "card ?L = card (greater_pairs B A)"
    by (rule card_image) (auto simp: inj_on_def)
  have U: "?U = greater_pairs A B \<union> ?L \<union> equal_pairs A B"
    by (auto simp: greater_pairs_def equal_pairs_def image_iff)
  have d1: "greater_pairs A B \<inter> ?L = {}"
    by (auto simp: greater_pairs_def)
  have d2: "(greater_pairs A B \<union> ?L) \<inter> equal_pairs A B = {}"
    by (auto simp: greater_pairs_def equal_pairs_def)
  have "card ?U = card (greater_pairs A B \<union> ?L) + card (equal_pairs A B)"
    unfolding U using d2 by (intro card_Un_disjoint) (auto simp: finite_pairs)
  also have "card (greater_pairs A B \<union> ?L) = card (greater_pairs A B) + card ?L"
    using d1 by (intro card_Un_disjoint) (auto simp: finite_pairs)
  finally show ?thesis by (simp add: cL)
qed

lemma equal_pairs_empty_iff: "equal_pairs A B = {} \<longleftrightarrow> set A \<inter> set B = {}"
proof
  assume h: "equal_pairs A B = {}"
  show "set A \<inter> set B = {}"
  proof (rule ccontr)
    assume "set A \<inter> set B \<noteq> {}"
    then obtain x where "x \<in> set A" "x \<in> set B" by auto
    then obtain i j where "i < length A" "A ! i = x" "j < length B" "B ! j = x"
      by (auto simp: in_set_conv_nth)
    then have "(i, j) \<in> equal_pairs A B" by (simp add: equal_pairs_def)
    with h show False by simp
  qed
next
  assume "set A \<inter> set B = {}"
  then show "equal_pairs A B = {}"
    by (auto simp: equal_pairs_def) (metis disjoint_iff nth_mem)
qed

lemma round_units: "toFixed_units (of_nat c / 36) = (10000 * int c + 18) div 36"
proof -
  have "of_nat c / (36::rat) * 10000 + 1 / 2 = of_int (10000 * int c + 18) / of_int 36"
    by simp
  then have "\<lfloor>of_nat c / (36::rat) * 10000 + 1 / 2\<rfloor> = (10000 * int c + 18) div 36"
    by (simp only: floor_divide_of_int_eq)
  then show ?thesis by (simp add: toFixed_units_def)
qed

lemma calculateProbability_units:
  "calculateProbability A B = of_int ((10000 * int (count_greater A B) + 18) div 36) / 10000"
  by (simp add: calculateProbability_def round_units)

lemma units_complement:
  fixes c1 c2 :: int
  assumes h: "c1 + c2 = 36"
  shows "(10000 * c1 + 18) div 36 + (10000 * c2 + 18) div 36 = 10000"
proof -
  define q1 where "q1 = (10000 * c1 + 18) div 36"
  define m1 where "m1 = (10000 * c1 + 18) mod 36"
  define q2 where "q2 = (10000 * c2 + 18) div 36"
  define m2 where "m2 = (10000 * c2 + 18) mod 36"
  have e1: "10000 * c1 + 18 = 36 * q1 + m1" and b1: "0 \<le> m1" "m1 < 36"
    by (simp_all add: q1_def m1_def)
  have e2: "10000 * c2 + 18 = 36 * q2 + m2" and b2: "0 \<le> m2" "m2 < 36"
    by (simp_all add: q2_def m2_def)
  have "m1 = 10000 * c1 + 18 - 36 * q1" using e1 by simp
  then have "m1 = 2 * (5000 * c1 + 9 - 18 * q1)" by simp
  have odd1: "m1 \<noteq> 0"
  proof
    assume "m1 = 0"
    then have "4 * (9 * q1 - 2500 * c1) = 18" using e1 by simp
    then have "(4::int) dvd 18" by (metis dvd_triv_left)
    then show False by simp
  qed
  have odd2: "m2 \<noteq> 0"
  proof
    assume "m2 = 0"
    then have "4 * (9 * q2 - 2500 * c2) = 18" using e2 by simp
    then have "(4::int) dvd 18" by (metis dvd_triv_left)
    then show False by simp
  qed
  have "10000 * c1 + 10000 * c2 = 360000" using h by simp
  then have s: "36 * (q1 + q2) + (m1 + m2) = 360036" using e1 e2 by simp
  have "0 < m1 + m2" "m1 + m2 < 72" using b1 b2 odd1 odd2 by linarith+
  have "m1 + m2 = 36 * (10001 - (q1 + q2))" using s by simp
  then have "(36::int) dvd m1 + m2" by (metis dvd_triv_left)
  then obtain t where t: "m1 + m2 = 36 * t" by (auto simp: dvd_def)
  with \<open>0 < m1 + m2\<close> \<open>m1 + m2 < 72\<close> have "t = 1" by linarith
  with t s have "36 * (q1 + q2) = 36 * 10000" by simp
  then have "q1 + q2 = 10000" by (simp only: mult_cancel_left) simp
  then show ?thesis by (simp add: q1_def q2_def)
qed

lemma units_deficit:
  fixes c1 c2 :: int
  shows "c1 + c2 < 36 \<Longrightarrow> (10000 * c1 + 18) div 36 + (10000 * c2 + 18) div 36 < 10000"
  by linarith

lemma units_mod_nonzero:
  fixes c :: int
  shows "(10000 * c + 18) mod 36 \<noteq> 0"
proof
  assume "(10000 * c + 18) mod 36 = 0"
  then have "36 dvd 10000 * c + 18" by (simp add: dvd_eq_mod_eq_0)
  then obtain t where "10000 * c + 18 = 36 * t" by (auto simp: dvd_def)
  then have "4 * (9 * t - 2500 * c) = 18" by simp
  then have "(4::int) dvd 18" by (metis dvd_triv_left)
  then show False by simp
qed

lemma units_close:
  fixes c :: int
  shows "\<bar>36 * ((10000 * c + 18) div 36) - 10000 * c\<bar> < 18"
proof -
  define q where "q = (10000 * c + 18) div 36"
  define m where "m = (10000 * c + 18) mod 36"
  have e: "10000 * c + 18 = 36 * q + m" and b: "0 \<le> m" "m < 36"
    by (simp_all add: q_def m_def)
  have "m \<noteq> 0" unfolding m_def by (rule units_mod_nonzero)
  with e b show ?thesis unfolding q_def[symmetric] by linarith
qed

lemma calculateProbability_close:
  "\<bar>calculateProbability A B - of_nat (count_greater A B) / 36\<bar> < 1 / 20000"
proof -
  define c where "c = int (count_greater A B)"
  define r where "r = (10000 * c + 18) div 36"
  have p: "calculateProbability A B = of_int r / 10000"
    by (simp add: calculateProbability_units r_def c_def)
  have "\<bar>36 * r - 10000 * c\<bar> < 18" unfolding r_def by (rule units_close)
  then have "\<bar>of_int (36 * r - 10000 * c) :: rat\<bar> < of_int 18"
    by (metis of_int_abs of_int_less_iff)
  then have h: "\<bar>36 * of_int r - 10000 * of_int c :: rat\<bar> < 18" by simp
  have eq: "of_int r / 10000 - of_int c / (36::rat) = (36 * of_int r - 10000 * of_int c) / 360000"
    by (simp add: field_simps)
  have "\<bar>(36 * of_int r - 10000 * of_int c) / (360000::rat)\<bar> = \<bar>36 * of_int r - 10000 * of_int c\<bar> / 360000"
    by simp
  also have "\<dots> < 18 / 360000"
    using h by (rule divide_strict_right_mono) simp
  finally have "\<bar>of_int r / 10000 - of_int c / (36::rat)\<bar> < 1 / 20000"
    by (simp add: eq)
  then show ?thesis by (simp add: p c_def)
qed

lemma Dice_accepts_iff: "Dice (faces d) = Inr d \<longleftrightarrow> length (faces d) = 6"
  by (simp add: Dice_def)

lemma calculate_nth:
  "i < length ds \<Longrightarrow> j < length ds \<Longrightarrow>
   calculate ds ! i ! j =
     (if i = j then StrCell ''- (0.3333)''
      else NumCell (calculateProbability (faces (ds ! i)) (faces (ds ! j))))"
  by (simp add: calculate_def calculate_row_def)

lemma example_count: "count_greater [2, 2, 4, 4, 9, 9] [6, 8, 1, 1, 8, 6] = 20"
  "count_greater [6, 8, 1, 1, 8, 6] [2, 2, 4, 4, 9, 9] = 16"
  by (simp_all add: count_greater_def)

lemma example_probability:
  "calculateProbability [2, 2, 4, 4, 9, 9] [6, 8, 1, 1, 8, 6] = 5556 / 10000"
  "calculateProbability [6, 8, 1, 1, 8, 6] [2, 2, 4, 4, 9, 9] = 4444 / 10000"
  by (simp_all add: calculateProbability_units example_count)

lemma greater_pairs_subset: "greater_pairs A B \<subseteq> {..<length A} \<times> {..<length B}"
  by (auto simp: greater_pairs_def)

lemma matrix_sum_cases:
  assumes "length A = 6" "length B = 6"
  shows "(calculateProbability A B + calculateProbability B A = 1 \<longleftrightarrow> set A \<inter> set B = {})
       \<and> (set A \<inter> set B \<noteq> {} \<longrightarrow> calculateProbability A B + calculateProbability B A < 1)"
proof -
  define c1 where "c1 = int (count_greater A B)"
  define c2 where "c2 = int (count_greater B A)"
  define r1 where "r1 = (10000 * c1 + 18) div 36"
  define r2 where "r2 = (10000 * c2 + 18) div 36"
  have total: "c1 + c2 + int (card (equal_pairs A B)) = 36"
    using pairs_partition [of A B] assms by (simp add: c1_def c2_def count_greater_card)
  have sum: "calculateProbability A B + calculateProbability B A = of_int (r1 + r2) / 10000"
    by (simp add: calculateProbability_units r1_def r2_def c1_def c2_def add_divide_distrib)
  have one: "calculateProbability A B + calculateProbability B A = 1 \<longleftrightarrow> r1 + r2 = 10000"
  proof -
    have "(of_int (r1 + r2) / (10000::rat) = 1) = (of_int (r1 + r2) = (of_int 10000 :: rat))"
      by simp
    also have "\<dots> = (r1 + r2 = 10000)" by (simp only: of_int_eq_iff)
    finally show ?thesis by (simp only: sum)
  qed
  have less: "calculateProbability A B + calculateProbability B A < 1 \<longleftrightarrow> r1 + r2 < 10000"
  proof -
    have "(of_int (r1 + r2) / (10000::rat) < 1) = (of_int (r1 + r2) < (of_int 10000 :: rat))"
      by simp
    also have "\<dots> = (r1 + r2 < 10000)" by (simp only: of_int_less_iff)
    finally show ?thesis by (simp only: sum)
  qed
  show ?thesis
  proof (cases "set A \<inter> set B = {}")
    case True
    then have "equal_pairs A B = {}" by (simp only: equal_pairs_empty_iff)
    then have "card (equal_pairs A B) = 0" by simp
    with total have "c1 + c2 = 36" by simp
    then have "r1 + r2 = 10000" unfolding r1_def r2_def by (rule units_complement)
    with True one show ?thesis by simp
  next
    case False
    then have "equal_pairs A B \<noteq> {}" by (simp only: equal_pairs_empty_iff not_False_eq_True)
    then have "0 < card (equal_pairs A B)" by (simp add: card_gt_0_iff finite_pairs)
    with total have "c1 + c2 < 36" by linarith
    then have "r1 + r2 < 10000" unfolding r1_def r2_def by (rule units_deficit)
    with False one less show ?thesis by simp
  qed
qed

lemma toFixed_units_fraction:
  assumes "0 \<le> a" and "0 < b"
  shows "toFixed_units (of_int a / of_int b) = (20000 * a + b) div (2 * b)"
proof -
  have nn: "\<not> (of_int a / of_int b :: rat) < 0"
    using assms by (simp add: not_less)
  have "b \<noteq> 0" using assms by simp
  then have "(of_int a / of_int b :: rat) * 10000 + 1 / 2 = of_int (20000 * a + b) / of_int (2 * b)"
    by (simp add: field_simps)
  then have "\<lfloor>(of_int a / of_int b :: rat) * 10000 + 1 / 2\<rfloor> = (20000 * a + b) div (2 * b)"
    by (simp only: floor_divide_of_int_eq)
  with nn show ?thesis by (simp only: toFixed_units_def if_False)
qed

lemma toFixed_units_values: "toFixed_units 0 = 0" "toFixed_units (1 / 2) = 5000"
  using toFixed_units_fraction [of 0 1] toFixed_units_fraction [of 1 2] by simp_all
lemma dec_digits_values: "dec_digits 0 = ''0''" "dec_digits 5000 = ''5000''"
  by (simp_all add: dec_digits.simps digit_char_def)
lemma replicate_values: "replicate 4 c = [c, c, c, c]" "replicate 3 c = [c, c, c]"
  by (simp_all add: numeral_eq_Suc)

lemma toFixed_values: "toFixed 0 = ''0.0000''" "toFixed (1 / 2) = ''0.5000''"
  by (simp_all add: toFixed_def toFixed_units_values dec_digits_values replicate_values)

lemma calculate_row_t_fst_Cons:
  "fst (calculate_row_t rnd i (j # js) k) =
     (if i = j then StrCell ''- (0.3333)'' # fst (calculate_row_t rnd i js k)
      else StrCell (toFixed (rnd k)) # fst (calculate_row_t rnd i js (Suc k)))"
  by (simp split: prod.splits)

lemma calculate_rows_t_fst_Cons:
  "fst (calculate_rows_t rnd n (i # is) k) =
     fst (calculate_row_t rnd i [0..<n] k)
       # fst (calculate_rows_t rnd n is (snd (calculate_row_t rnd i [0..<n] k)))"
  by (simp split: prod.splits)

lemma calculate_row_t_diagonal:
  "x < length js \<Longrightarrow> js ! x = i \<Longrightarrow> fst (calculate_row_t rnd i js k) ! x = StrCell ''- (0.3333)''"
proof (induction js arbitrary: k x)
  case Nil
  then show ?case by simp
next
  case (Cons j js)
  show ?case
  proof (cases x)
    case 0
    with Cons.prems show ?thesis
      by (simp add: calculate_row_t_fst_Cons del: calculate_row_t.simps(2))
  next
    case (Suc y)
    with Cons.prems have "y < length js" "js ! y = i" by simp_all
    then have "fst (calculate_row_t rnd i js k') ! y = StrCell ''- (0.3333)''" for k'
      by (rule Cons.IH)
    with Suc show ?thesis
      by (auto simp add: calculate_row_t_fst_Cons simp del: calculate_row_t.simps(2))
  qed
qed

lemma calculate_rows_t_nth:
  "x < length is \<Longrightarrow> \<exists>k'. fst (calculate_rows_t rnd n is k) ! x = fst (calculate_row_t rnd (is ! x) [0..<n] k')"
proof (induction "is" arbitrary: k x)
  case Nil
  then show ?case by simp
next
  case (Cons i "is")
  show ?case
  proof (cases x)
    case 0
    then show ?thesis
      by (auto simp add: calculate_rows_t_fst_Cons simp del: calculate_rows_t.simps(2))
  next
    case (Suc y)
    with Cons.prems have "y < length is" by simp
    then have "\<exists>k'. fst (calculate_rows_t rnd n is k2) ! y = fst (calculate_row_t rnd (is ! y) [0..<n] k')" for k2
      by (rule Cons.IH)
    with Suc show ?thesis
      by (simp add: calculate_rows_t_fst_Cons del: calculate_rows_t.simps(2))
  qed
qed

lemma calculate_t_diagonal:
  assumes "i < length ds"
  shows "fst (calculate_t rnd k ds) ! i ! i = StrCell ''- (0.3333)''"
proof -
  obtain k' where "fst (calculate_t rnd k ds) ! i = fst (calculate_row_t rnd i [0..<length ds] k')"
    using calculate_rows_t_nth [of i "[0..<length ds]" rnd "length ds" k] assms
    by (auto simp: calculate_t_def)
  moreover have "fst (calculate_row_t rnd i [0..<length ds] k') ! i = StrCell ''- (0.3333)''"
    using assms by (intro calculate_row_t_diagonal) simp_all
  ultimately show ?thesis by simp
qed

lemma calculate_t_first_cell:
  assumes "2 \<le> length ds"
  shows "fst (calculate_t rnd k ds) ! 0 ! 1 = StrCell (toFixed (rnd k))"
proof -
  define n where "n = length ds"
  have n: "0 < n" "Suc 0 < n" using assms unfolding n_def by linarith+
  have outer: "[0..<n] = 0 # [Suc 0..<n]"
    using n(1) by (rule upt_conv_Cons)
  have inner: "[0..<n] = 0 # Suc 0 # [Suc (Suc 0)..<n]"
    using n by (simp only: upt_conv_Cons)
  have "fst (calculate_rows_t rnd n [0..<n] k) ! 0 = fst (calculate_row_t rnd 0 [0..<n] k)"
    by (subst outer) (simp only: calculate_rows_t_fst_Cons nth_Cons_0)
  moreover have "fst (calculate_row_t rnd 0 [0..<n] k) ! 1 = StrCell (toFixed (rnd k))"
    by (subst inner) (simp add: calculate_row_t_fst_Cons del: calculate_row_t.simps(2))
  ultimately show ?thesis
    by (simp add: calculate_t_def n_def)
qed

subsection \<open>The pairwise probability is the exact count over 36, rounded\<close>

text \<open>
  Claim C2, as amended. For two dice of six faces, \<open>calculateProbability\<close> counts exactly
  the ordered pairs of face positions where the first die's face is strictly greater, out
  of the 36 pairs, and returns that count over 36 rounded to four decimals: a multiple of
  \<open>1/10000\<close> less than half a unit from the quotient. For \<open>[2,2,4,4,9,9]\<close> against
  \<open>[6,8,1,1,8,6]\<close> the count is 20 and the result \<open>0.5556\<close>; \<open>0.4444\<close> (count 16) is the
  result for \<open>[6,8,1,1,8,6]\<close> against \<open>[2,2,4,4,9,9]\<close>.
\<close>

theorem calculateProbability_exact_enumeration:
  assumes "length diceA = 6" and "length diceB = 6"
  shows "count_greater diceA diceB = card (greater_pairs diceA diceB)
       \<and> greater_pairs diceA diceB \<subseteq> {..<6} \<times> {..<6}
       \<and> (\<exists>n::int. calculateProbability diceA diceB = of_int n / 10000)
       \<and> \<bar>calculateProbability diceA diceB - of_nat (card (greater_pairs diceA diceB)) / 36\<bar> < 1 / 20000
       \<and> card (greater_pairs [2, 2, 4, 4, 9, 9] [6, 8, 1, 1, 8, 6]) = 20
       \<and> calculateProbability [2, 2, 4, 4, 9, 9] [6, 8, 1, 1, 8, 6] = 5556 / 10000
       \<and> card (greater_pairs [6, 8, 1, 1, 8, 6] [2, 2, 4, 4, 9, 9]) = 16
       \<and> calculateProbability [6, 8, 1, 1, 8, 6] [2, 2, 4, 4, 9, 9] = 4444 / 10000"
proof -
  have "greater_pairs diceA diceB \<subseteq> {..<6} \<times> {..<6}"
    using greater_pairs_subset [of diceA diceB] assms by simp
  moreover have "\<exists>n::int. calculateProbability diceA diceB = of_int n / 10000"
    by (subst calculateProbability_units) blast
  moreover have "\<bar>calculateProbability diceA diceB - of_nat (card (greater_pairs diceA diceB)) / 36\<bar> < 1 / 20000"
    using calculateProbability_close [of diceA diceB] by (simp add: count_greater_card)
  moreover have "card (greater_pairs [2, 2, 4, 4, 9, 9] [6, 8, 1, 1, 8, 6]) = 20"
    "card (greater_pairs [6, 8, 1, 1, 8, 6] [2, 2, 4, 4, 9, 9]) = 16"
    by (simp_all only: count_greater_card [symmetric] example_count)
  ultimately show ?thesis
    by (simp only: count_greater_card example_probability simp_thms)
qed

text \<open>The theorem at the dice \<open>[7,5,3,7,5,3]\<close> and \<open>[6,8,1,1,8,6]\<close>.\<close>

theorem calculateProbability_exact_enumeration_witness:
  "length [7, 5, 3, 7, 5, 3 :: int] = 6 \<and> length [6, 8, 1, 1, 8, 6 :: int] = 6
   \<and> count_greater [7, 5, 3, 7, 5, 3] [6, 8, 1, 1, 8, 6] = card (greater_pairs [7, 5, 3, 7, 5, 3] [6, 8, 1, 1, 8, 6])
   \<and> \<bar>calculateProbability [7, 5, 3, 7, 5, 3] [6, 8, 1, 1, 8, 6]
        - of_nat (card (greater_pairs [7, 5, 3, 7, 5, 3] [6, 8, 1, 1, 8, 6])) / 36\<bar> < 1 / 20000
   \<and> calculateProbability [2, 2, 4, 4, 9, 9] [6, 8, 1, 1, 8, 6] = 5556 / 10000"
  using calculateProbability_exact_enumeration [of "[7, 5, 3, 7, 5, 3]" "[6, 8, 1, 1, 8, 6]"]
  by simp

text \<open>Claim C2 as stated gives about \<open>0.4444\<close> for \<open>[2,2,4,4,9,9]\<close> beating
  \<open>[6,8,1,1,8,6]\<close>; the code returns \<open>0.5556\<close>.\<close>

theorem calculateProbability_example_not_4444:
  "calculateProbability [2, 2, 4, 4, 9, 9] [6, 8, 1, 1, 8, 6] = 5556 / 10000
   \<and> \<not> \<bar>calculateProbability [2, 2, 4, 4, 9, 9] [6, 8, 1, 1, 8, 6] - 4444 / 10000\<bar> < 1 / 10"
  by (simp add: example_probability)

subsection \<open>Ties count for neither die\<close>

text \<open>
  Claim C3. For two distinct dice \<open>i\<close> and \<open>j\<close> of a dice set, each accepted by the
  \<open>Dice\<close> constructor: the pairs won by \<open>i\<close>, the pairs won by \<open>j\<close> and the tied pairs
  add up to 36 (so the two counts add up to at most 36); both matrix entries are numbers;
  they sum to exactly 1 if and only if the dice share no face value, and to strictly less
  than 1 whenever they share one. (The sum is that of the two four-decimal numbers the
  entries denote.)
\<close>

theorem tie_handling:
  assumes "i < length diceSet" and "j < length diceSet" and "i \<noteq> j"
    and "Dice (faces (diceSet ! i)) = Inr (diceSet ! i)"
    and "Dice (faces (diceSet ! j)) = Inr (diceSet ! j)"
  shows "count_greater (faces (diceSet ! i)) (faces (diceSet ! j))
           + count_greater (faces (diceSet ! j)) (faces (diceSet ! i))
           + card (equal_pairs (faces (diceSet ! i)) (faces (diceSet ! j))) = 36
       \<and> count_greater (faces (diceSet ! i)) (faces (diceSet ! j))
           + count_greater (faces (diceSet ! j)) (faces (diceSet ! i)) \<le> 36
       \<and> (\<exists>p q. calculate diceSet ! i ! j = NumCell p \<and> calculate diceSet ! j ! i = NumCell q
             \<and> (p + q = 1 \<longleftrightarrow> set (faces (diceSet ! i)) \<inter> set (faces (diceSet ! j)) = {})
             \<and> (set (faces (diceSet ! i)) \<inter> set (faces (diceSet ! j)) \<noteq> {} \<longrightarrow> p + q < 1))"
proof -
  let ?A = "faces (diceSet ! i)" and ?B = "faces (diceSet ! j)"
  have len: "length ?A = 6" "length ?B = 6"
    using assms(4,5) by (simp_all add: Dice_accepts_iff)
  have total: "count_greater ?A ?B + count_greater ?B ?A + card (equal_pairs ?A ?B) = 36"
    using pairs_partition [of ?A ?B] len by (simp add: count_greater_card)
  then have "count_greater ?A ?B + count_greater ?B ?A \<le> 36" by linarith
  moreover note total
  moreover have "calculate diceSet ! i ! j = NumCell (calculateProbability ?A ?B)"
    "calculate diceSet ! j ! i = NumCell (calculateProbability ?B ?A)"
    using assms(1-3) by (simp_all add: calculate_nth)
  ultimately show ?thesis
    using matrix_sum_cases [OF len] by blast
qed

text \<open>The theorem at a dice set whose first two dice share the faces 2 and 4, so that
  their two entries sum to less than 1, and whose last two dice share no face, so that
  theirs sum to 1.\<close>

theorem tie_handling_witness:
  "(\<exists>p q. calculate [\<lparr>faces = [1, 2, 3, 4, 5, 6]\<rparr>, \<lparr>faces = [2, 2, 4, 4, 9, 9]\<rparr>, \<lparr>faces = [7, 5, 3, 7, 5, 3]\<rparr>] ! 0 ! 1 = NumCell p
     \<and> calculate [\<lparr>faces = [1, 2, 3, 4, 5, 6]\<rparr>, \<lparr>faces = [2, 2, 4, 4, 9, 9]\<rparr>, \<lparr>faces = [7, 5, 3, 7, 5, 3]\<rparr>] ! 1 ! 0 = NumCell q
     \<and> p + q < 1)
   \<and> (\<exists>p q. calculate [\<lparr>faces = [1, 2, 3, 4, 5, 6]\<rparr>, \<lparr>faces = [2, 2, 4, 4, 9, 9]\<rparr>, \<lparr>faces = [7, 5, 3, 7, 5, 3]\<rparr>] ! 1 ! 2 = NumCell p
     \<and> calculate [\<lparr>faces = [1, 2, 3, 4, 5, 6]\<rparr>, \<lparr>faces = [2, 2, 4, 4, 9, 9]\<rparr>, \<lparr>faces = [7, 5, 3, 7, 5, 3]\<rparr>] ! 2 ! 1 = NumCell q
     \<and> p + q = 1)"
proof -
  let ?ds = "[\<lparr>faces = [1, 2, 3, 4, 5, 6]\<rparr>, \<lparr>faces = [2, 2, 4, 4, 9, 9]\<rparr>, \<lparr>faces = [7, 5, 3, 7, 5, 3 :: int]\<rparr>]"
  have "\<exists>p q. calculate ?ds ! 0 ! 1 = NumCell p \<and> calculate ?ds ! 1 ! 0 = NumCell q \<and> p + q < 1"
    using tie_handling [of 0 ?ds 1] by (auto simp add: Dice_def)
  moreover have "\<exists>p q. calculate ?ds ! 1 ! 2 = NumCell p \<and> calculate ?ds ! 2 ! 1 = NumCell q \<and> p + q = 1"
    using tie_handling [of 1 ?ds 2] by (auto simp add: Dice_def)
  ultimately show ?thesis by blast
qed

subsection \<open>The diagonal is the fixed label\<close>

text \<open>
  Claim C4. For every dice set and every index \<open>i\<close> of it, the diagonal entry of the
  matrix is the string label \<open>- (0.3333)\<close>, not a number and so not the pairwise formula
  applied to the die against itself; this holds in \<^verbatim>\<open>src/game.js\<close>, in the copy
  \<^verbatim>\<open>src/unnamed/part_000\<close> (which returns the same matrix) and in the draft \<^verbatim>\<open>src/t.js\<close>,
  whatever \<open>Math.random\<close> yields.
\<close>

theorem diagonal_is_fixed_label:
  assumes "i < length diceSet"
  shows "calculate diceSet ! i ! i = StrCell ''- (0.3333)''
       \<and> calculate diceSet ! i ! i \<noteq> NumCell (calculateProbability (faces (diceSet ! i)) (faces (diceSet ! i)))
       \<and> calculate_part_000 diceSet = Inr (calculate diceSet)
       \<and> fst (calculate_t rnd k diceSet) ! i ! i = StrCell ''- (0.3333)''"
proof -
  have "calculate diceSet ! i ! i = StrCell ''- (0.3333)''"
    using assms by (simp add: calculate_nth)
  moreover have "calculate_part_000 diceSet = Inr (calculate diceSet)"
    using assms by (cases diceSet) (simp_all add: calculate_part_000_def)
  ultimately show ?thesis
    using calculate_t_diagonal [OF assms] by simp
qed

theorem diagonal_is_fixed_label_witness:
  "(1::nat) < length example_dice
   \<and> calculate example_dice ! 1 ! 1 = StrCell ''- (0.3333)''
   \<and> fst (calculate_t (\<lambda>k. of_nat k / 7) 0 example_dice) ! 1 ! 1 = StrCell ''- (0.3333)''"
proof -
  have h: "(1::nat) < length example_dice" by (simp add: example_dice_def)
  show ?thesis
    using h diagonal_is_fixed_label [OF h, of "\<lambda>k. of_nat k / 7" 0] by simp
qed

subsection \<open>The draft's matrix depends on the random source\<close>

text \<open>
  Claim C5 says that \<open>calculate\<close> is a pure function of the dice set in every copy of the
  source. The draft \<^verbatim>\<open>src/t.js\<close> breaks it: on the same dice set, the cell \<open>[0][1]\<close> is
  \<open>"0.0000"\<close> when \<open>Math.random\<close> yields 0 and \<open>"0.5000"\<close> when it yields \<open>1/2\<close>, so the
  two matrices differ; \<^verbatim>\<open>src/game.js\<close> has the computed number \<open>0.5556\<close> there.
\<close>

theorem draft_matrix_depends_on_random:
  "fst (calculate_t (\<lambda>k. 0) 0 example_dice) ! 0 ! 1 = StrCell ''0.0000''
   \<and> fst (calculate_t (\<lambda>k. 1 / 2) 0 example_dice) ! 0 ! 1 = StrCell ''0.5000''
   \<and> fst (calculate_t (\<lambda>k. 0) 0 example_dice) \<noteq> fst (calculate_t (\<lambda>k. 1 / 2) 0 example_dice)
   \<and> calculate example_dice ! 0 ! 1 = NumCell (5556 / 10000)"
proof -
  have l: "2 \<le> length example_dice" by (simp add: example_dice_def)
  have a: "fst (calculate_t (\<lambda>k. 0) 0 example_dice) ! 0 ! 1 = StrCell ''0.0000''"
    using calculate_t_first_cell [OF l, of "\<lambda>k. 0" 0] by (simp add: toFixed_values)
  have b: "fst (calculate_t (\<lambda>k. 1 / 2) 0 example_dice) ! 0 ! 1 = StrCell ''0.5000''"
    using calculate_t_first_cell [OF l, of "\<lambda>k. 1 / 2" 0] by (simp add: toFixed_values)
  have c: "fst (calculate_t (\<lambda>k. 0) 0 example_dice) \<noteq> fst (calculate_t (\<lambda>k. 1 / 2) 0 example_dice)"
  proof
    assume "fst (calculate_t (\<lambda>k. 0) 0 example_dice) = fst (calculate_t (\<lambda>k. 1 / 2) 0 example_dice)"
    with a b have "StrCell ''0.0000'' = StrCell ''0.5000''" by simp
    then show False by simp
  qed
  have d: "calculate example_dice ! 0 ! 1 = NumCell (calculateProbability [2, 2, 4, 4, 9, 9] [6, 8, 1, 1, 8, 6])"
    by (simp add: calculate_nth example_dice_def)
  with a b c show ?thesis by (simp add: example_probability)
qed

section \<open>Properties of the fair random protocol\<close>

lemma digit_cases:
  assumes "d < (10::nat)"
  obtains "d = 0" | "d = 1" | "d = 2" | "d = 3" | "d = 4" | "d = 5" | "d = 6" | "d = 7" | "d = 8" | "d = 9"
proof -
  have "d = 0 \<or> d = 1 \<or> d = 2 \<or> d = 3 \<or> d = 4 \<or> d = 5 \<or> d = 6 \<or> d = 7 \<or> d = 8 \<or> d = 9"
    using assms by arith
  with that show ?thesis by blast
qed

lemma digit_value_digit_char: "d < 10 \<Longrightarrow> digit_value (digit_char d) = Some d"
  by (erule digit_cases) (simp_all add: digit_char_def digit_value_def)

lemma digit_char_plain:
  assumes "d < 10"
  shows "is_digit (digit_char d)"
    and "digit_char d \<notin> set [CHR 0x09, CHR 0x0A, CHR 0x0B, CHR 0x0C, CHR 0x0D, CHR 0x20,
            CHR 0xC2, CHR 0xE1, CHR 0xE2, CHR 0xE3, CHR 0xEF]"
    and "digit_char d \<noteq> CHR ''-''" and "digit_char d \<noteq> CHR ''+''"
    and "digit_char d \<noteq> CHR ''x''" and "digit_char d \<noteq> CHR ''X''" and "digit_char d \<noteq> CHR ''?''"
  using assms
  by (erule_tac digit_cases; simp add: digit_char_def is_digit_def digit_value_def)+

lemma white_space_lead:
  assumes "w \<in> set white_space"
  shows "w \<noteq> []"
    and "hd w \<in> set [CHR 0x09, CHR 0x0A, CHR 0x0B, CHR 0x0C, CHR 0x0D, CHR 0x20,
            CHR 0xC2, CHR 0xE1, CHR 0xE2, CHR 0xE3, CHR 0xEF]"
  using assms by (auto simp: white_space_def)

lemma dropWhiteSpace_unchanged:
  assumes "s \<noteq> []"
    and "hd s \<notin> set [CHR 0x09, CHR 0x0A, CHR 0x0B, CHR 0x0C, CHR 0x0D, CHR 0x20,
            CHR 0xC2, CHR 0xE1, CHR 0xE2, CHR 0xE3, CHR 0xEF]"
  shows "dropWhiteSpace s = s"
proof -
  have "take (length w) s \<noteq> w" if w: "w \<in> set white_space" for w
  proof
    assume t: "take (length w) s = w"
    have "w \<noteq> []" using w by (rule white_space_lead(1))
    then have "hd (take (length w) s) = hd s"
      using assms(1) by (cases s; cases w) simp_all
    with t have "hd w = hd s" by simp
    with white_space_lead(2) [OF w] assms(2) show False by simp
  qed
  then have "List.find (\<lambda>w. take (length w) s = w) white_space = None"
    by (simp add: find_None_iff)
  then show ?thesis by (subst dropWhiteSpace.simps) simp
qed

lemma ulp_exponent_small: "a < 2 ^ 53 \<Longrightarrow> ulp_exponent a = 0"
  by (subst ulp_exponent.simps) simp

lemma to_double_exact:
  assumes "\<bar>x\<bar> < 2 ^ 53"
  shows "to_double x = Num x"
proof -
  have a: "nat \<bar>x\<bar> < 2 ^ 53" using assms by (simp add: nat_less_iff)
  have "int (nat \<bar>x\<bar>) < 2 ^ 1024"
  proof -
    have "int (nat \<bar>x\<bar>) < 2 ^ 53" using assms by simp
    also have "(2::int) ^ 53 \<le> 2 ^ 1024" by (rule power_increasing) simp_all
    finally show ?thesis .
  qed
  then have b: "\<not> 2 ^ 1024 \<le> nat \<bar>x\<bar>"
    by (metis not_le of_nat_numeral of_nat_power of_nat_less_iff)
  have "sgn x * \<bar>x\<bar> = x" by (simp add: sgn_if)
  then show ?thesis
    using b by (simp add: to_double_def ulp_exponent_small [OF a] Let_def)
qed

lemma dec_digits_not_Nil: "dec_digits n \<noteq> []"
  by (subst dec_digits.simps) simp

lemma dec_digits_all_digits: "c \<in> set (dec_digits n) \<Longrightarrow> \<exists>d<10. c = digit_char d"
proof (induction n rule: dec_digits.induct)
  case (1 n)
  show ?case
  proof (cases "n < 10")
    case True
    with "1.prems" show ?thesis by (subst (asm) dec_digits.simps) auto
  next
    case False
    with "1.prems" have "c \<in> set (dec_digits (n div 10)) \<or> c = digit_char (n mod 10)"
      by (subst (asm) dec_digits.simps) auto
    then show ?thesis
    proof
      assume "c \<in> set (dec_digits (n div 10))"
      with False "1.IH" show ?thesis by simp
    next
      assume "c = digit_char (n mod 10)"
      moreover have "n mod 10 < 10" by simp
      ultimately show ?thesis by blast
    qed
  qed
qed

lemma digits_value_snoc:
  "digits_value (z @ [c]) = digits_value z * 10 + (case digit_value c of Some d \<Rightarrow> d | None \<Rightarrow> 0)"
  by (simp add: digits_value_def)

lemma digits_value_dec_digits: "digits_value (dec_digits n) = n"
proof (induction n rule: dec_digits.induct)
  case (1 n)
  show ?case
  proof (cases "n < 10")
    case True
    then show ?thesis
      by (subst dec_digits.simps) (simp add: digits_value_def digit_value_digit_char)
  next
    case False
    then have "digits_value (dec_digits (n div 10)) = n div 10" by (rule "1.IH")
    with False show ?thesis
      by (subst dec_digits.simps) (simp add: digits_value_snoc digit_value_digit_char)
  qed
qed

lemma dec_digits_hd:
  obtains d ds where "dec_digits n = digit_char d # ds" and "d < 10"
proof -
  obtain c ds where e: "dec_digits n = c # ds"
    using dec_digits_not_Nil [of n] by (cases "dec_digits n") auto
  then have "c \<in> set (dec_digits n)" by simp
  then obtain d where "d < 10" "c = digit_char d"
    using dec_digits_all_digits by blast
  with e that show ?thesis by blast
qed

lemma parseInt_digits_then_junk:
  assumes "junk = [] \<or> \<not> is_digit (hd junk)" and "int n < 2 ^ 53"
  shows "parseInt (dec_digits n @ junk) = Num (int n)"
proof -
  obtain d ds where e: "dec_digits n = digit_char d # ds" and d: "d < 10"
    by (rule dec_digits_hd)
  have all: "\<forall>c\<in>set (dec_digits n). is_digit c"
    using dec_digits_all_digits digit_char_plain(1) by blast
  have S: "dropWhiteSpace (dec_digits n @ junk) = dec_digits n @ junk"
    using d by (intro dropWhiteSpace_unchanged) (simp_all add: e digit_char_plain(2) del: set_simps)
  have j: "takeWhile is_digit junk = []"
    using assms(1) by (cases junk) auto
  have Z: "takeWhile is_digit (dec_digits n @ junk) = dec_digits n"
    using all j by (simp add: takeWhile_append2)
  have h: "hd (dec_digits n @ junk) = digit_char d" by (simp add: e)
  have v: "to_double (int n) = Num (int n)"
    using assms(2) by (intro to_double_exact) simp
  have "parseInt (dec_digits n @ junk) = (if n = 0 then Num 0 else to_double (int n))"
    unfolding parseInt_def S Let_def h
    using d Z by (simp add: digit_char_plain dec_digits_not_Nil digits_value_dec_digits)
  with v show ?thesis by simp
qed

lemma parseInt_toString: "0 \<le> c \<Longrightarrow> c < 2 ^ 53 \<Longrightarrow> parseInt (toString c) = Num c"
  using parseInt_digits_then_junk [of "[]" "nat c"] by (simp add: toString_def)

lemma toString_not_command:
  assumes "0 \<le> c"
  shows "toString c @ junk \<noteq> ''x''" "toString c @ junk \<noteq> ''X''" "toString c @ junk \<noteq> ''?''"
proof -
  obtain d ds where e: "dec_digits (nat c) = digit_char d # ds" and d: "d < 10"
    by (rule dec_digits_hd)
  show "toString c @ junk \<noteq> ''x''" "toString c @ junk \<noteq> ''X''" "toString c @ junk \<noteq> ''?''"
    using assms d by (simp_all add: toString_def e digit_char_plain)
qed

lemma js_rem_nonneg: "0 \<le> a \<Longrightarrow> 0 < r \<Longrightarrow> js_rem (Num a) (Num r) = Num (a mod r)"
  by (cases "a = 0") (auto simp add: sgn_if)

lemma js_add_exact: "\<bar>a + b\<bar> < 2 ^ 53 \<Longrightarrow> js_add (Num a) (Num b) = Num (a + b)"
  by (simp add: to_double_exact)

lemma hex_digit_in: "d < 16 \<Longrightarrow> is_hex_char (hex_digit d)"
  unfolding hex_digit_def is_hex_char_def by (rule nth_mem) simp

lemma hex_byte_chars: "list_all is_hex_char (hex_byte b)"
proof -
  have "unat b < 256" using unsigned_less [of b] by simp
  then have "unat b div 16 < 16" by simp
  moreover have "unat b mod 16 < 16" by simp
  ultimately show ?thesis
    unfolding hex_byte_def by (simp add: hex_digit_in)
qed

lemma toString_hex_length: "length (toString_hex bs) = 2 * length bs"
  by (induction bs) (simp_all add: toString_hex_def hex_byte_def)

lemma toString_hex_chars: "list_all is_hex_char (toString_hex bs)"
  unfolding toString_hex_def
  by (induction bs) (simp_all add: hex_byte_chars)

lemma is_hex64_toString_hex: "length bs = 32 \<Longrightarrow> is_hex64 (toString_hex bs)"
  unfolding is_hex64_def using toString_hex_chars [of bs] by (simp add: toString_hex_length)

lemma randomBytes_length: "length (fst (randomBytes n e)) = n"
  by (simp add: randomBytes_def)

lemma generateRandom_succeeds:
  assumes "1 \<le> r" and "r \<le> RAND_MAX"
  shows "generateRandom H r e =
           (let k = toString_hex (fst (randomBytes 32 e));
                rv = int (random_samples e (samples_drawn e)) mod r
            in (Inr \<lparr>randomValue = rv, hmac = createHmac H k (toString rv), key = k\<rparr>,
                e\<lparr>bytes_drawn := bytes_drawn e + 32, samples_drawn := Suc (samples_drawn e)\<rparr>))"
proof -
  have "isSafeInteger r"
    using assms by (simp add: isSafeInteger_def RAND_MAX_def)
  then show ?thesis
    using assms by (simp add: generateRandom_def randomBytes_def randomInt_def isSafeInteger_def Let_def)
qed

lemma generateRandom_fails_low:
  assumes "r \<le> 0"
  shows "fst (generateRandom H r e) = Inl (if isSafeInteger r then ERR_OUT_OF_RANGE else ERR_INVALID_ARG_TYPE)"
  using assms by (simp add: generateRandom_def randomBytes_def randomInt_def isSafeInteger_def Let_def)

lemma generateRandom_fails_high:
  assumes "RAND_MAX < r"
  shows "fst (generateRandom H r e) = Inl (if isSafeInteger r then ERR_OUT_OF_RANGE else ERR_INVALID_ARG_TYPE)"
  using assms by (simp add: generateRandom_def randomBytes_def randomInt_def isSafeInteger_def Let_def RAND_MAX_def)

lemma generateRandom_Inr:
  assumes "generateRandom H r e = (Inr c, e')"
  shows "1 \<le> r" and "r \<le> RAND_MAX" and "0 \<le> randomValue c" and "randomValue c < r"
    and "hmac c = createHmac H (key c) (toString (randomValue c))"
    and "key c = toString_hex (fst (randomBytes 32 e))"
proof -
  have r: "1 \<le> r \<and> r \<le> RAND_MAX"
  proof (rule ccontr)
    assume "\<not> (1 \<le> r \<and> r \<le> RAND_MAX)"
    then have "r \<le> 0 \<or> RAND_MAX < r" by linarith
    then have "isl (fst (generateRandom H r e))"
      using generateRandom_fails_low [of r H e] generateRandom_fails_high [of r H e] by auto
    with assms show False by simp
  qed
  then show "1 \<le> r" "r \<le> RAND_MAX" by simp_all
  from r have "generateRandom H r e =
           (let k = toString_hex (fst (randomBytes 32 e));
                rv = int (random_samples e (samples_drawn e)) mod r
            in (Inr \<lparr>randomValue = rv, hmac = createHmac H k (toString rv), key = k\<rparr>,
                e\<lparr>bytes_drawn := bytes_drawn e + 32, samples_drawn := Suc (samples_drawn e)\<rparr>))"
    by (intro generateRandom_succeeds) simp_all
  with assms have c: "c = \<lparr>randomValue = int (random_samples e (samples_drawn e)) mod r,
      hmac = createHmac H (toString_hex (fst (randomBytes 32 e))) (toString (int (random_samples e (samples_drawn e)) mod r)),
      key = toString_hex (fst (randomBytes 32 e))\<rparr>"
    by (simp add: Let_def)
  show "0 \<le> randomValue c" "randomValue c < r"
    using r by (simp_all add: c)
  show "hmac c = createHmac H (key c) (toString (randomValue c))"
    "key c = toString_hex (fst (randomBytes 32 e))"
    by (simp_all add: c)
qed

lemma example_mac_length: "length (example_mac k msg) = 32"
  by (simp add: example_mac_def)

lemma example_generateRandom:
  "\<exists>c e'. generateRandom example_mac 6 example_entropy = (Inr c, e') \<and> randomValue c = 3"
proof -
  have "generateRandom example_mac 6 example_entropy =
           (let k = toString_hex (fst (randomBytes 32 example_entropy));
                rv = int (random_samples example_entropy (samples_drawn example_entropy)) mod 6
            in (Inr \<lparr>randomValue = rv, hmac = createHmac example_mac k (toString rv), key = k\<rparr>,
                example_entropy\<lparr>bytes_drawn := bytes_drawn example_entropy + 32,
                   samples_drawn := Suc (samples_drawn example_entropy)\<rparr>))"
    by (rule generateRandom_succeeds) (simp_all add: RAND_MAX_def)
  then show ?thesis
    by (simp add: Let_def example_entropy_def)
qed

lemma fairThrow_answer:
  assumes "generateRandom H r e = (Inr cm, e')"
    and "userNumber \<noteq> ''x''" and "userNumber \<noteq> ''X''" and "userNumber \<noteq> ''?''"
  shows "fairThrow H r player (userNumber # rest) e =
           (Returned (js_rem (js_add (Num (randomValue cm)) (parseInt userNumber)) (Num r)), rest, e')"
  using assms by simp

lemma dropWhiteSpace_values:
  "dropWhiteSpace ''abc'' = ''abc''" "dropWhiteSpace ''3abc'' = ''3abc''"
  "dropWhiteSpace ''-4'' = ''-4''" "dropWhiteSpace ''9007199254740992'' = ''9007199254740992''"
  by (rule dropWhiteSpace_unchanged; simp)+

lemma dropWhiteSpace_nbsp: "dropWhiteSpace [CHR 0xC2, CHR 0xA0, CHR ''4''] = ''4''"
proof -
  have "dropWhiteSpace [CHR 0xC2, CHR 0xA0, CHR ''4''] = dropWhiteSpace ''4''"
    by (subst dropWhiteSpace.simps) (simp add: white_space_def)
  also have "\<dots> = ''4''" by (rule dropWhiteSpace_unchanged) simp_all
  finally show ?thesis .
qed

lemma parseInt_values:
  "parseInt ''abc'' = NaN" "parseInt ''3abc'' = Num 3" "parseInt ''-4'' = Num (- 4)"
  "parseInt [CHR 0xC2, CHR 0xA0, CHR ''4''] = Num 4"
  by (simp_all add: parseInt_def dropWhiteSpace_values dropWhiteSpace_nbsp is_digit_def
        digit_value_def digits_value_def to_double_exact)

lemma ulp_exponent_2_53: "ulp_exponent 9007199254740992 = 1" "ulp_exponent 9007199254740995 = 1"
  by (simp_all add: ulp_exponent.simps [of 9007199254740992] ulp_exponent.simps [of 9007199254740995]
        ulp_exponent_small)

lemma to_double_values:
  "to_double 9007199254740992 = Num 9007199254740992"
  "to_double 9007199254740995 = Num 9007199254740996"
  by (simp_all add: to_double_def ulp_exponent_2_53 Let_def)

lemma parseInt_2_53: "parseInt ''9007199254740992'' = Num 9007199254740992"
  by (simp add: parseInt_def dropWhiteSpace_values is_digit_def digit_value_def digits_value_def
        to_double_values)

lemma toString_values: "toString 3 = ''3''" "toString 4 = ''4''"
  by (simp_all add: toString_def dec_digits.simps digit_char_def)

subsection \<open>Commit and reveal\<close>

text \<open>
  Claim C1. Every triple that \<open>generateRandom\<close> returns for a range of at least 1
  verifies: \<open>verifyHMAC\<close> on the triple's value, key and digest is true.
\<close>

theorem commit_reveal_round_trip:
  assumes "1 \<le> r" and "generateRandom H r e = (Inr c, e')"
  shows "verifyHMAC H (randomValue c) (key c) (hmac c)"
  using generateRandom_Inr(5) [OF assms(2)] by (simp add: verifyHMAC_def)

text \<open>The theorem at the range 6 in the concrete environment.\<close>

theorem commit_reveal_round_trip_witness:
  "(1::int) \<le> 6 \<and> (\<exists>c e'. generateRandom example_mac 6 example_entropy = (Inr c, e')
      \<and> verifyHMAC example_mac (randomValue c) (key c) (hmac c))"
proof -
  obtain c e' where g: "generateRandom example_mac 6 example_entropy = (Inr c, e')"
    using example_generateRandom by blast
  have "verifyHMAC example_mac (randomValue c) (key c) (hmac c)"
    using commit_reveal_round_trip [OF _ g] by simp
  with g show ?thesis by auto
qed

subsection \<open>The ranges \<open>generateRandom\<close> accepts\<close>

text \<open>
  Claim C6, as amended. \<open>generateRandom\<close> has no range check of its own and the program
  no \<open>InvalidRangeError\<close>: for every range of at most 0 it fails with the error that
  \<open>crypto.randomInt\<close> throws (\<open>ERR_OUT_OF_RANGE\<close>, or \<open>ERR_INVALID_ARG_TYPE\<close> when the
  range is not a safe integer). For every range from 1 to \<open>2^48 - 1\<close> it succeeds: the
  value lies in \<open>[0, range)\<close>, the key is the hexadecimal form, 64 characters, of the next
  32 bytes of the random source, the digest is the MAC of the value's decimal string
  under that key, and the call consumes those 32 bytes and one sample, so that the next
  call draws later ones. From \<open>2^48\<close> on it fails again, as \<open>crypto.randomInt\<close> does.
\<close>

theorem generateRandom_range_check:
  "(r \<le> 0 \<longrightarrow> fst (generateRandom H r e) = Inl (if isSafeInteger r then ERR_OUT_OF_RANGE else ERR_INVALID_ARG_TYPE))
   \<and> (1 \<le> r \<and> r < 2 ^ 48 \<longrightarrow>
        (\<exists>c. fst (generateRandom H r e) = Inr c
            \<and> 0 \<le> randomValue c \<and> randomValue c < r
            \<and> key c = toString_hex (map (random_bytes e) [bytes_drawn e..<bytes_drawn e + 32])
            \<and> is_hex64 (key c)
            \<and> hmac c = createHmac H (key c) (toString (randomValue c)))
        \<and> bytes_drawn (snd (generateRandom H r e)) = bytes_drawn e + 32
        \<and> samples_drawn (snd (generateRandom H r e)) = samples_drawn e + 1)
   \<and> (2 ^ 48 \<le> r \<longrightarrow> fst (generateRandom H r e) = Inl (if isSafeInteger r then ERR_OUT_OF_RANGE else ERR_INVALID_ARG_TYPE))"
proof (intro conjI impI)
  assume "r \<le> 0"
  then show "fst (generateRandom H r e) = Inl (if isSafeInteger r then ERR_OUT_OF_RANGE else ERR_INVALID_ARG_TYPE)"
    by (rule generateRandom_fails_low)
next
  assume "2 ^ 48 \<le> r"
  then have "RAND_MAX < r" by (simp add: RAND_MAX_def)
  then show "fst (generateRandom H r e) = Inl (if isSafeInteger r then ERR_OUT_OF_RANGE else ERR_INVALID_ARG_TYPE)"
    by (rule generateRandom_fails_high)
next
  assume a: "1 \<le> r \<and> r < 2 ^ 48"
  then have g: "generateRandom H r e =
           (let k = toString_hex (fst (randomBytes 32 e));
                rv = int (random_samples e (samples_drawn e)) mod r
            in (Inr \<lparr>randomValue = rv, hmac = createHmac H k (toString rv), key = k\<rparr>,
                e\<lparr>bytes_drawn := bytes_drawn e + 32, samples_drawn := Suc (samples_drawn e)\<rparr>))"
    by (intro generateRandom_succeeds) (simp_all add: RAND_MAX_def)
  show "bytes_drawn (snd (generateRandom H r e)) = bytes_drawn e + 32"
    "samples_drawn (snd (generateRandom H r e)) = samples_drawn e + 1"
    by (simp_all add: g Let_def)
  have "is_hex64 (toString_hex (fst (randomBytes 32 e)))"
    by (rule is_hex64_toString_hex) (rule randomBytes_length)
  then show "\<exists>c. fst (generateRandom H r e) = Inr c
            \<and> 0 \<le> randomValue c \<and> randomValue c < r
            \<and> key c = toString_hex (map (random_bytes e) [bytes_drawn e..<bytes_drawn e + 32])
            \<and> is_hex64 (key c)
            \<and> hmac c = createHmac H (key c) (toString (randomValue c))"
    using a by (simp add: g Let_def randomBytes_def)
qed

text \<open>The theorem at the ranges 0 and 6 in the concrete environment.\<close>

theorem generateRandom_range_check_witness:
  "fst (generateRandom example_mac 0 example_entropy) = Inl ERR_OUT_OF_RANGE
   \<and> (\<exists>c. fst (generateRandom example_mac 6 example_entropy) = Inr c
            \<and> 0 \<le> randomValue c \<and> randomValue c < 6 \<and> is_hex64 (key c)
            \<and> hmac c = createHmac example_mac (key c) (toString (randomValue c)))
   \<and> bytes_drawn (snd (generateRandom example_mac 6 example_entropy)) = 32"
  using generateRandom_range_check [of 0 example_mac example_entropy]
    generateRandom_range_check [of 6 example_mac example_entropy]
  by (auto simp add: isSafeInteger_def example_entropy_def)

text \<open>Claim C6 as stated has \<open>generateRandom\<close> succeed for every range of at least 1
  and fail with an \<open>InvalidRangeError\<close> below: at the range \<open>2^48\<close> it fails, since
  \<open>crypto.randomInt\<close> rejects it, and at the range 0 the error is the library's
  \<open>ERR_OUT_OF_RANGE\<close>.\<close>

theorem generateRandom_fails_at_2_pow_48:
  "fst (generateRandom example_mac (2 ^ 48) example_entropy) = Inl ERR_OUT_OF_RANGE
   \<and> fst (generateRandom example_mac 0 example_entropy) = Inl ERR_OUT_OF_RANGE"
  using generateRandom_fails_high [of "2 ^ 48" example_mac example_entropy]
    generateRandom_fails_low [of 0 example_mac example_entropy]
  by (simp add: RAND_MAX_def isSafeInteger_def)

subsection \<open>\<open>verifyHMAC\<close> returns a boolean on every input\<close>

text \<open>
  Claim C7, as amended. \<open>verifyHMAC\<close> never fails: for every value that is a safe
  integer (of magnitude below \<open>2^53\<close>, so that the value's string is its decimal
  numeral), every key string and every digest string it returns a boolean, true exactly
  when the digest is the recomputed MAC in hexadecimal. It has no check of well-formedness
  and the program no \<open>MalformedCommitmentError\<close>: a key of any length or content is used
  as the MAC's key, and a digest that is not 64 lowercase hexadecimal characters is
  answered with false (the MAC being 32 bytes long).
\<close>

theorem verifyHMAC_never_fails:
  assumes "isSafeInteger v"
  shows "(verifyHMAC H v k h \<longleftrightarrow> h = toString_hex (H k (toString v)))
       \<and> (length (H k (toString v)) = 32 \<and> \<not> is_hex64 h \<longrightarrow> \<not> verifyHMAC H v k h)"
  using is_hex64_toString_hex [of "H k (toString v)"]
  by (auto simp add: verifyHMAC_def createHmac_def)

text \<open>The theorem at the value 5 and the malformed digest \<open>zz\<close>.\<close>

theorem verifyHMAC_never_fails_witness:
  "isSafeInteger 5 \<and> length (example_mac ''k'' (toString 5)) = 32 \<and> \<not> is_hex64 ''zz''
   \<and> \<not> verifyHMAC example_mac 5 ''k'' ''zz''"
proof -
  have s: "isSafeInteger 5" by (simp add: isSafeInteger_def)
  have h: "length (example_mac ''k'' (toString 5)) = 32 \<and> \<not> is_hex64 ''zz''"
    by (simp add: example_mac_length is_hex64_def)
  have "\<not> verifyHMAC example_mac 5 ''k'' ''zz''"
    using verifyHMAC_never_fails [OF s, of example_mac "''k''" "''zz''"] h by blast
  with s h show ?thesis by blast
qed

text \<open>Claim C7 as stated has \<open>verifyHMAC\<close> fail on a key or digest of the wrong length.
  With the one-character key \<open>k\<close> it returns true on the digest made with that key, and
  false on the two-character digest \<open>zz\<close>.\<close>

theorem verifyHMAC_accepts_malformed:
  "\<not> is_hex64 ''k''
   \<and> verifyHMAC example_mac 5 ''k'' (createHmac example_mac ''k'' (toString 5)) = True
   \<and> \<not> is_hex64 ''zz''
   \<and> verifyHMAC example_mac 5 ''k'' ''zz'' = False"
proof -
  have "is_hex64 (createHmac example_mac ''k'' (toString 5))"
    unfolding createHmac_def by (rule is_hex64_toString_hex) (rule example_mac_length)
  moreover have "\<not> is_hex64 ''zz''" "\<not> is_hex64 ''k''" by (simp_all add: is_hex64_def)
  ultimately have "''zz'' \<noteq> createHmac example_mac ''k'' (toString 5)" by metis
  then show ?thesis
    by (simp add: verifyHMAC_def is_hex64_def)
qed

subsection \<open>The fair draw\<close>

text \<open>
  Claim C9. For every range of at least 1, every commitment \<open>generateRandom\<close> returns
  for it (its value lies in \<open>[0, range)\<close>) and every contribution \<open>c\<close> of \<open>[0, range)\<close>,
  typed as its decimal numeral, \<open>fairThrow\<close> returns \<open>(value + c) mod range\<close>, which lies
  in \<open>[0, range)\<close>; for the range 1 the result is 0, and the commitment is made and
  verifies as for any other range.
\<close>

theorem fair_draw_composition:
  assumes "1 \<le> r" and "generateRandom H r e = (Inr cm, e')" and "0 \<le> c" and "c < r"
  shows "0 \<le> randomValue cm \<and> randomValue cm < r
       \<and> fairThrow H r player (toString c # rest) e = (Returned (Num ((randomValue cm + c) mod r)), rest, e')
       \<and> 0 \<le> (randomValue cm + c) mod r \<and> (randomValue cm + c) mod r < r
       \<and> (r = 1 \<longrightarrow> (randomValue cm + c) mod r = 0)
       \<and> verifyHMAC H (randomValue cm) (key cm) (hmac cm)"
proof -
  have rv: "0 \<le> randomValue cm" "randomValue cm < r"
    using generateRandom_Inr(3,4) [OF assms(2)] by simp_all
  have "fairThrow H r player (toString c # rest) e =
          (Returned (js_rem (js_add (Num (randomValue cm)) (parseInt (toString c))) (Num r)), rest, e')"
    using assms(2) toString_not_command [OF assms(3), of "[]"]
    by (intro fairThrow_answer) simp_all
  also have "js_rem (js_add (Num (randomValue cm)) (parseInt (toString c))) (Num r) = Num ((randomValue cm + c) mod r)"
  proof -
    have r: "r \<le> RAND_MAX" by (rule generateRandom_Inr(2) [OF assms(2)])
    have small: "randomValue cm + c < 2 ^ 53" "c < 2 ^ 53"
      using r rv assms(3,4) by (simp_all add: RAND_MAX_def)
    have "parseInt (toString c) = Num c"
      using assms(3) small(2) by (rule parseInt_toString)
    moreover have "js_add (Num (randomValue cm)) (Num c) = Num (randomValue cm + c)"
      using small(1) rv(1) assms(3) by (intro js_add_exact) simp
    ultimately have "js_add (Num (randomValue cm)) (parseInt (toString c)) = Num (randomValue cm + c)"
      by simp
    moreover have "js_rem (Num (randomValue cm + c)) (Num r) = Num ((randomValue cm + c) mod r)"
      using assms(1,3) rv by (intro js_rem_nonneg) simp_all
    ultimately show ?thesis by (simp only:)
  qed
  finally have ft: "fairThrow H r player (toString c # rest) e = (Returned (Num ((randomValue cm + c) mod r)), rest, e')" .
  have v: "verifyHMAC H (randomValue cm) (key cm) (hmac cm)"
    using generateRandom_Inr(5) [OF assms(2)] by (simp add: verifyHMAC_def)
  have "0 \<le> (randomValue cm + c) mod r" "(randomValue cm + c) mod r < r"
    using assms(1) by simp_all
  with rv ft v show ?thesis by simp
qed

text \<open>The theorem at the range 6, the committed value 3 and the contribution 4.\<close>

theorem fair_draw_composition_witness:
  "\<exists>cm e'. generateRandom example_mac 6 example_entropy = (Inr cm, e') \<and> randomValue cm = 3
     \<and> fairThrow example_mac 6 ''user'' [''4''] example_entropy = (Returned (Num 1), [], e')"
proof -
  obtain cm e' where g: "generateRandom example_mac 6 example_entropy = (Inr cm, e')"
    and rv: "randomValue cm = 3"
    using example_generateRandom by blast
  have "fairThrow example_mac 6 ''user'' (toString 4 # []) example_entropy
          = (Returned (Num ((randomValue cm + 4) mod 6)), [], e')"
    using fair_draw_composition [OF _ g, of 4 "''user''" "[]"] by simp
  then have "fairThrow example_mac 6 ''user'' [''4''] example_entropy = (Returned (Num 1), [], e')"
    by (simp add: rv toString_values)
  with g rv show ?thesis by blast
qed

subsection \<open>The contribution is not validated\<close>

text \<open>
  Claim C10. Whatever the user answers other than \<open>x\<close>, \<open>X\<close> or \<open>?\<close>, \<open>fairThrow\<close>
  returns \<open>(randomValue + parseInt(answer, 10)) % range\<close>, computed as JavaScript
  computes it, with no check of the answer against \<open>[0, range)\<close>: an answer \<open>parseInt\<close>
  reads no number from makes the result \<open>NaN\<close>, and \<open>roll\<close> at \<open>NaN\<close> is \<open>undefined\<close>
  (a numeral too long for a double, read as an infinity, makes the result \<open>NaN\<close> too);
  an answer that is the decimal numeral of a number of \<open>[0, range)\<close> followed by something
  that does not start with a digit counts as that number.
\<close>

theorem fairThrow_no_validation:
  assumes "generateRandom H r e = (Inr cm, e')"
    and "userNumber \<noteq> ''x''" and "userNumber \<noteq> ''X''" and "userNumber \<noteq> ''?''"
  shows "fairThrow H r player (userNumber # rest) e =
           (Returned (js_rem (js_add (Num (randomValue cm)) (parseInt userNumber)) (Num r)), rest, e')
       \<and> (parseInt userNumber = NaN \<longrightarrow>
             fairThrow H r player (userNumber # rest) e = (Returned NaN, rest, e') \<and> roll d NaN = None)
       \<and> (parseInt userNumber = PosInf \<or> parseInt userNumber = NegInf \<longrightarrow>
             fairThrow H r player (userNumber # rest) e = (Returned NaN, rest, e'))
       \<and> (0 \<le> c \<and> c < r \<and> (junk = [] \<or> \<not> is_digit (hd junk)) \<and> userNumber = toString c @ junk \<longrightarrow>
             parseInt userNumber = Num c
             \<and> fairThrow H r player (userNumber # rest) e =
                 (Returned (Num ((randomValue cm + c) mod r)), rest, e'))"
proof -
  have ft: "fairThrow H r player (userNumber # rest) e =
           (Returned (js_rem (js_add (Num (randomValue cm)) (parseInt userNumber)) (Num r)), rest, e')"
    using assms by (rule fairThrow_answer)
  have r: "1 \<le> r" "r \<le> RAND_MAX" and rv: "0 \<le> randomValue cm" "randomValue cm < r"
    using generateRandom_Inr(1-4) [OF assms(1)] by simp_all
  have p: "parseInt userNumber = Num c
         \<and> fairThrow H r player (userNumber # rest) e = (Returned (Num ((randomValue cm + c) mod r)), rest, e')"
    if h: "0 \<le> c \<and> c < r \<and> (junk = [] \<or> \<not> is_digit (hd junk)) \<and> userNumber = toString c @ junk"
  proof -
    have small: "randomValue cm + c < 2 ^ 53" "c < 2 ^ 53"
      using r rv h by (simp_all add: RAND_MAX_def)
    have pi: "parseInt userNumber = Num c"
      using h small(2) parseInt_digits_then_junk [of junk "nat c"] by (simp add: toString_def)
    have "js_add (Num (randomValue cm)) (Num c) = Num (randomValue cm + c)"
      using small(1) rv(1) h by (intro js_add_exact) simp
    moreover have "js_rem (Num (randomValue cm + c)) (Num r) = Num ((randomValue cm + c) mod r)"
      using r(1) rv(1) h by (intro js_rem_nonneg) simp_all
    ultimately show ?thesis
      using ft pi by simp
  qed
  show ?thesis
    using ft p by auto
qed

text \<open>The theorem at the committed value 3 and the range 6, at the answers \<open>abc\<close>,
  \<open>3abc\<close>, \<open>-4\<close>, \<open>9007199254740992\<close> and a no-break space (U+00A0) before \<open>4\<close>: the
  results are \<open>NaN\<close>, 0, \<open>-1\<close>, 0 (the sum \<open>2^53 + 3\<close> is rounded to \<open>2^53 + 4\<close>) and 1,
  and \<open>roll\<close> is \<open>undefined\<close> at the first and the third.\<close>

theorem fairThrow_no_validation_witness:
  "\<exists>cm e'. generateRandom example_mac 6 example_entropy = (Inr cm, e') \<and> randomValue cm = 3
     \<and> fairThrow example_mac 6 ''user'' [''abc''] example_entropy = (Returned NaN, [], e')
     \<and> roll \<lparr>faces = [2, 2, 4, 4, 9, 9]\<rparr> NaN = None
     \<and> fairThrow example_mac 6 ''user'' [''3abc''] example_entropy = (Returned (Num 0), [], e')
     \<and> fairThrow example_mac 6 ''user'' [''-4''] example_entropy = (Returned (Num (- 1)), [], e')
     \<and> roll \<lparr>faces = [2, 2, 4, 4, 9, 9]\<rparr> (Num (- 1)) = None
     \<and> fairThrow example_mac 6 ''user'' [''9007199254740992''] example_entropy = (Returned (Num 0), [], e')
     \<and> fairThrow example_mac 6 ''user'' [[CHR 0xC2, CHR 0xA0, CHR ''4'']] example_entropy
          = (Returned (Num 1), [], e')"
proof -
  obtain cm e' where g: "generateRandom example_mac 6 example_entropy = (Inr cm, e')"
    and rv: "randomValue cm = 3"
    using example_generateRandom by blast
  have a: "fairThrow example_mac 6 ''user'' [''abc''] example_entropy = (Returned NaN, [], e')"
    using fairThrow_no_validation [OF g, of "''abc''" "''user''" "[]"]
    by (simp add: parseInt_values del: fairThrow.simps)
  have b: "fairThrow example_mac 6 ''user'' [''3abc''] example_entropy = (Returned (Num 0), [], e')"
    using fairThrow_no_validation [OF g, of "''3abc''" "''user''" "[]" _ 3 "''abc''"]
    by (simp add: rv toString_values is_digit_def digit_value_def to_double_exact del: fairThrow.simps)
  have c: "fairThrow example_mac 6 ''user'' [''-4''] example_entropy = (Returned (Num (- 1)), [], e')"
    using fairThrow_no_validation [OF g, of "''-4''" "''user''" "[]"]
    by (simp add: rv parseInt_values to_double_exact del: fairThrow.simps)
  have d: "fairThrow example_mac 6 ''user'' [''9007199254740992''] example_entropy = (Returned (Num 0), [], e')"
    using fairThrow_no_validation [OF g, of "''9007199254740992''" "''user''" "[]"]
    by (simp add: rv parseInt_2_53 to_double_values del: fairThrow.simps)
  have f: "fairThrow example_mac 6 ''user'' [[CHR 0xC2, CHR 0xA0, CHR ''4'']] example_entropy
          = (Returned (Num 1), [], e')"
    using fairThrow_no_validation [OF g, of "[CHR 0xC2, CHR 0xA0, CHR ''4'']" "''user''" "[]"]
    by (simp add: rv parseInt_values to_double_exact del: fairThrow.simps)
  from g rv a b c d f show ?thesis by simp
qed

end
